theory Spec2Isabelle
  imports Main "HOL-Library.AList"
begin

section \<open>Strings and lists as Python has them\<close>

text \<open>
  A Python \<open>str\<close> is modelled as an Isabelle \<open>string\<close>; a \<open>char\<close> stands for the code
  point of the same number (the code points below 256). \<open>str.isspace\<close> holds on that
  range for the characters listed in \<open>isspace\<close>, and \<open>str.lower\<close> moves the capital
  letters of that range by 32.
\<close>

definition isspace :: "char \<Rightarrow> bool" where
  "isspace c = (c \<in> set [CHR 0x09, CHR 0x0A, CHR 0x0B, CHR 0x0C, CHR 0x0D,
                         CHR 0x1C, CHR 0x1D, CHR 0x1E, CHR 0x1F, CHR 0x20,
                         CHR 0x85, CHR 0xA0])"

definition lower_char :: "char \<Rightarrow> char" where
  "lower_char c =
     (let n = (of_char c :: nat)
      in if (65 \<le> n \<and> n \<le> 90) \<or> (192 \<le> n \<and> n \<le> 222 \<and> n \<noteq> 215)
         then char_of (n + 32) else c)"

text \<open>\<open>s.lower()\<close>\<close>

definition lower :: "string \<Rightarrow> string" where
  "lower s = map lower_char s"

text \<open>Removing the leading and the trailing characters that satisfy \<open>P\<close>.\<close>

definition str_strip :: "(char \<Rightarrow> bool) \<Rightarrow> string \<Rightarrow> string" where
  "str_strip P s = rev (dropWhile P (rev (dropWhile P s)))"

text \<open>\<open>s.strip()\<close>\<close>

definition strip :: "string \<Rightarrow> string" where
  "strip s = str_strip isspace s"

text \<open>\<open>s.strip(chars)\<close>\<close>

definition strip_chars :: "string \<Rightarrow> string \<Rightarrow> string" where
  "strip_chars chars s = str_strip (\<lambda>x. x \<in> set chars) s"

text \<open>
  \<open>clean(s, remove)\<close>, lines 16 to 27: one \<open>strip\<close> after the other, in the order of
  \<open>remove\<close>. Every call of the module leaves \<open>remove\<close> at its default, the double
  quote and then the single quote.
\<close>

definition clean_with :: "string list \<Rightarrow> string \<Rightarrow> string" where
  "clean_with remove s = fold strip_chars remove s"

definition clean :: "string \<Rightarrow> string" where
  "clean s = clean_with [[CHR 0x22], [CHR 0x27]] s"

text \<open>
  The exceptions that can leave the three functions. \<open>SystemExit\<close> is the end of the
  process that \<open>fatal\<close> brings about.
\<close>

datatype error = SystemExit | ValueError | KeyError | StopIteration | IndexError

text \<open>
  \<open>s.split(sep)\<close> for a separator string: the leftmost occurrences of \<open>sep\<close>, not
  overlapping, cut the string; the result has at least one element. The empty separator
  raises \<open>ValueError\<close>.
\<close>

function split_sep :: "string \<Rightarrow> string \<Rightarrow> string list" where
  "split_sep sep [] = [[]]"
| "split_sep sep (c # cs) =
     (if sep \<noteq> [] \<and> take (length sep) (c # cs) = sep
      then [] # split_sep sep (drop (length sep) (c # cs))
      else (case split_sep sep cs of
              w # ws \<Rightarrow> (c # w) # ws
            | [] \<Rightarrow> [[c]]))"
  by pat_completeness auto
termination
  by (relation "measure (\<lambda>(sep, s). length s)") auto

definition str_split :: "string \<Rightarrow> string \<Rightarrow> error + string list" where
  "str_split s sep = (if sep = [] then Inl ValueError else Inr (split_sep sep s))"

text \<open>\<open>re.split(';|,', s)\<close>: the string is cut at every semicolon and every comma.\<close>

fun re_split :: "string \<Rightarrow> string list" where
  "re_split [] = [[]]"
| "re_split (c # cs) =
     (if c = CHR '';'' \<or> c = CHR '','' then [] # re_split cs
      else (case re_split cs of
              w # ws \<Rightarrow> (c # w) # ws
            | [] \<Rightarrow> [[c]]))"

text \<open>\<open>xs[i]\<close>: a negative index counts from the end, an index out of range raises.\<close>

definition get :: "'a list \<Rightarrow> int \<Rightarrow> error + 'a" where
  "get xs i =
     (if 0 \<le> i \<and> i < int (length xs) then Inr (xs ! nat i)
      else if i < 0 \<and> - int (length xs) \<le> i then Inr (xs ! nat (int (length xs) + i))
      else Inl IndexError)"

text \<open>\<open>xs.index(x)\<close>: the first position of \<open>x\<close>; \<open>None\<close> stands for \<open>ValueError\<close>.\<close>

fun list_index :: "'a list \<Rightarrow> 'a \<Rightarrow> int option" where
  "list_index [] x = None"
| "list_index (y # ys) x =
     (if y = x then Some 0 else map_option (\<lambda>i. i + 1) (list_index ys x))"

text \<open>\<open>sep.join(xs)\<close>\<close>

fun join :: "string \<Rightarrow> string list \<Rightarrow> string" where
  "join sep [] = []"
| "join sep [x] = x"
| "join sep (x # y # ys) = x @ sep @ join sep (y # ys)"

section \<open>Files and diagnostics\<close>

text \<open>
  A file is the path the functions are called with and the lines its iterator yields, each
  with its newline where the file has one.
\<close>

record textfile =
  path :: string
  lines :: "string list"

text \<open>
  Modelled from the spec: \<open>utils.err\<close>, \<open>utils.fatal\<close> and \<open>utils.Colors\<close> are imported and
  not part of the sources. \<open>err\<close> is the spec's \<open>warn(message)\<close>: it writes the message
  to the error stream and execution continues. \<open>fatal\<close> is the spec's \<open>fail(message)\<close>:
  it writes the message and terminates the process, here the error \<open>SystemExit\<close>. The
  colours only decorate the text. A message is kept as the place in the source that
  formats it, with the values it is formatted with:
  \<^item> \<open>EmptyFile file\<close>, line 50; \<open>AddInformation\<close>, line 51;
  \<^item> \<open>MissingColumnNames file\<close>, line 69; \<open>MakingAssumptions\<close>, line 77;
  \<^item> \<open>ColumnMissing lineno linelist\<close>, line 162;
  \<^item> \<open>InformationMissing lineno linelist\<close>, line 174;
  \<^item> \<open>MissingGroup file line_number stripped_line\<close>, line 239; \<open>SkippingLine\<close>, line 249;
  \<^item> \<open>UndefinedGroups file\<close>, line 268; \<open>UndefinedList joined\<close>, line 274.
\<close>

datatype message =
    EmptyFile string
  | AddInformation
  | MissingColumnNames string
  | MakingAssumptions
  | ColumnMissing nat "string list"
  | InformationMissing nat "string list"
  | MissingGroup string nat string
  | SkippingLine
  | UndefinedGroups string
  | UndefinedList string

text \<open>
  What a call does: the messages it writes to the error stream, in order, and either the
  exception that ends it or the value it returns.
\<close>

type_synonym 'a run = "message list \<times> (error + 'a)"

text \<open>The messages written before the rest of a call runs.\<close>

definition after :: "message list \<Rightarrow> 'a run \<Rightarrow> 'a run" where
  "after msgs r = (msgs @ fst r, snd r)"

section \<open>The column indexer\<close>

text \<open>
  The loop of lines 59 to 61 inside its \<open>try\<close>: the dictionary as far as it got, and
  whether the loop ended without \<open>ValueError\<close>.
\<close>

fun find_required ::
  "string list \<Rightarrow> string list \<Rightarrow> (string \<times> int) list \<Rightarrow> (string \<times> int) list \<times> bool" where
  "find_required header [] indices = (indices, True)"
| "find_required header (col # cols) indices =
     (let col' = lower col
      in case list_index header col' of
           None \<Rightarrow> (indices, False)
         | Some i \<Rightarrow> find_required header cols (AList.update col' i indices))"

text \<open>The loop of lines 85 and 86, from position \<open>i\<close> on.\<close>

fun positional ::
  "string list \<Rightarrow> int \<Rightarrow> (string \<times> int) list \<Rightarrow> (string \<times> int) list" where
  "positional [] i indices = indices"
| "positional (r # rs) i indices = positional rs (i + 1) (AList.update r i indices)"

text \<open>The cells of the header line, line 48.\<close>

definition header_cells :: "string list \<Rightarrow> string list" where
  "header_cells cells = map (\<lambda>col. clean (strip (lower col))) cells"

definition index ::
  "textfile \<Rightarrow> string \<Rightarrow> string list \<Rightarrow> ((string \<times> int) list \<times> bool) run" where
  "index file delim required =
     (case lines file of
        [] \<Rightarrow> ([EmptyFile (path file), AddInformation], Inl SystemExit)
      | first # _ \<Rightarrow>
          (case str_split (strip first) delim of
             Inl e \<Rightarrow> ([], Inl e)
           | Inr cells \<Rightarrow>
               (case find_required (header_cells cells) required [] of
                  (indices, True) \<Rightarrow> ([], Inr (indices, True))
                | (indices, False) \<Rightarrow>
                    ([MissingColumnNames (path file), MakingAssumptions],
                     Inr (positional required 0 indices, False)))))"

section \<open>The group reader\<close>

text \<open>
  A dictionary is kept as the list of its items in insertion order; \<open>AList.update\<close>
  replaces the value of a key that is present and appends a key that is not.
\<close>

type_synonym gdict = "(string \<times> string list) list"

text \<open>
  Lines 190 to 193 for one group \<open>g\<close>. The dictionary has the key \<open>g\<close> once line 191
  has run, so the lookup of line 192 finds it.
\<close>

definition add_member :: "string \<Rightarrow> string \<Rightarrow> gdict \<Rightarrow> gdict" where
  "add_member sample g groups =
     (let groups1 = (if map_of groups g = None then AList.update g [] groups else groups)
      in case map_of groups1 g of
           None \<Rightarrow> groups1
         | Some members \<Rightarrow>
             if sample \<notin> set members then AList.update g (members @ [sample]) groups1
             else groups1)"

text \<open>The loop of line 189.\<close>

fun add_sample :: "string \<Rightarrow> string list \<Rightarrow> gdict \<Rightarrow> gdict" where
  "add_sample sample [] groups = groups"
| "add_sample sample (g # gs) groups = add_sample sample gs (add_member sample g groups)"

text \<open>The handler of \<open>IndexError\<close>, lines 160 to 171: what it writes.\<close>

definition missing_column :: "nat \<Rightarrow> string list \<Rightarrow> message list" where
  "missing_column lineno linelist =
     (if filter (\<lambda>item. item \<noteq> []) linelist \<noteq> [] then [ColumnMissing lineno linelist]
      else [])"

text \<open>
  The body of the loop, lines 151 to 193, for the line numbered \<open>lineno\<close>: the messages it
  writes and the dictionary after it, or the exception that leaves the loop.
\<close>

definition groups_line ::
  "string \<Rightarrow> int \<Rightarrow> int \<Rightarrow> nat \<Rightarrow> string \<Rightarrow> gdict \<Rightarrow> error + (message list \<times> gdict)" where
  "groups_line delim s_index g_index lineno line groups =
     (case str_split line delim of
        Inl e \<Rightarrow> Inl e
      | Inr cells \<Rightarrow>
          (let linelist = map strip cells
           in case get linelist s_index of
                Inl _ \<Rightarrow> Inr (missing_column lineno linelist, groups)
              | Inr sample_cell \<Rightarrow>
                  (case get linelist g_index of
                     Inl _ \<Rightarrow> Inr (missing_column lineno linelist, groups)
                   | Inr group_cell \<Rightarrow>
                       (let sample = clean sample_cell
                        in if sample = [] \<or> group_cell = []
                           then Inr ([InformationMissing lineno linelist], groups)
                           else Inr ([], add_sample sample
                                           (map (\<lambda>g. clean (strip g)) (re_split group_cell))
                                           groups)))))"

text \<open>The loop of line 149; \<open>lineno\<close> counts the lines read before.\<close>

fun groups_loop ::
  "string \<Rightarrow> int \<Rightarrow> int \<Rightarrow> nat \<Rightarrow> string list \<Rightarrow> gdict \<Rightarrow> gdict run" where
  "groups_loop delim s_index g_index lineno [] groups = ([], Inr groups)"
| "groups_loop delim s_index g_index lineno (line # rest) groups =
     (case groups_line delim s_index g_index (lineno + 1) line groups of
        Inl e \<Rightarrow> ([], Inl e)
      | Inr (msgs, groups') \<Rightarrow>
          after msgs (groups_loop delim s_index g_index (lineno + 1) rest groups'))"

text \<open>
  \<open>groups(file, delim)\<close>, lines 91 to 195. Line 133 calls \<open>index(file)\<close>: the delimiter
  and the required names are the defaults of \<open>index\<close>.
\<close>

definition groups :: "textfile \<Rightarrow> string \<Rightarrow> gdict run" where
  "groups file delim =
     (case index file [CHR 0x09] [''sample'', ''group''] of
        (log, Inl e) \<Rightarrow> (log, Inl e)
      | (log, Inr (indices, header)) \<Rightarrow>
          after log
            (case map_of indices ''sample'' of
               None \<Rightarrow> ([], Inl KeyError)
             | Some s_index \<Rightarrow>
                 (case map_of indices ''group'' of
                    None \<Rightarrow> ([], Inl KeyError)
                  | Some g_index \<Rightarrow>
                      if header
                      then (case lines file of
                              [] \<Rightarrow> ([], Inl StopIteration)
                            | _ # rest \<Rightarrow> groups_loop delim s_index g_index 1 rest [])
                      else groups_loop delim s_index g_index 0 (lines file) [])))"

section \<open>The contrast reader\<close>

text \<open>
  The body of the loop, lines 229 to 264. A comparison \<open>[g1, g2]\<close> is kept as the pair
  \<open>(g1, g2)\<close>. The state is the list \<open>errors\<close> and the list \<open>comparsions\<close>.
\<close>

definition contrasts_line ::
  "string \<Rightarrow> string list \<Rightarrow> string \<Rightarrow> nat \<Rightarrow> string \<Rightarrow>
   string list \<times> (string \<times> string) list \<Rightarrow>
   error + (message list \<times> string list \<times> (string \<times> string) list)" where
  "contrasts_line file_path known_groups delim line_number line st =
     (case str_split line delim of
        Inl e \<Rightarrow> Inl e
      | Inr cells \<Rightarrow>
          (let linelist = map (\<lambda>l. clean (strip l)) cells;
               errors = fst st;
               comparsions = snd st;
               warning = [MissingGroup file_path line_number (strip line), SkippingLine]
           in case get linelist 0 of
                Inl _ \<Rightarrow> Inr (warning, errors, comparsions)
              | Inr g1 \<Rightarrow>
                  (case get linelist 1 of
                     Inl _ \<Rightarrow> Inr (warning, errors, comparsions)
                   | Inr g2 \<Rightarrow>
                       if g1 = [] \<or> g2 = [] then Inr ([], errors, comparsions)
                       else Inr ([],
                                 errors @ filter (\<lambda>g. g \<notin> set known_groups) [g1, g2],
                                 if (g1, g2) \<notin> set comparsions
                                 then comparsions @ [(g1, g2)] else comparsions))))"

text \<open>The loop of line 228; \<open>line_number\<close> counts the lines read before.\<close>

fun contrasts_loop ::
  "string \<Rightarrow> string list \<Rightarrow> string \<Rightarrow> nat \<Rightarrow> string list \<Rightarrow>
   string list \<times> (string \<times> string) list \<Rightarrow>
   (string list \<times> (string \<times> string) list) run" where
  "contrasts_loop file_path known_groups delim line_number [] st = ([], Inr st)"
| "contrasts_loop file_path known_groups delim line_number (line # rest) st =
     (case contrasts_line file_path known_groups delim (line_number + 1) line st of
        Inl e \<Rightarrow> ([], Inl e)
      | Inr (msgs, st') \<Rightarrow>
          after msgs (contrasts_loop file_path known_groups delim (line_number + 1) rest st'))"

text \<open>\<open>contrasts(file, groups, delim)\<close>, lines 198 to 281.\<close>

definition contrasts :: "textfile \<Rightarrow> string list \<Rightarrow> string \<Rightarrow> (string \<times> string) list run" where
  "contrasts file known_groups delim =
     (case contrasts_loop (path file) known_groups delim 0 (lines file) ([], []) of
        (log, Inl e) \<Rightarrow> (log, Inl e)
      | (log, Inr (errors, comparsions)) \<Rightarrow>
          if errors \<noteq> []
          then (log @ [UndefinedGroups (path file), UndefinedList (join '','' errors)],
                Inl SystemExit)
          else (log, Inr comparsions))"

section \<open>Runs of the readers\<close>

text \<open>
  The readers once more, as the runs the source can take: an inductive predicate with one
  rule for each way through a function or through one turn of a loop. The last argument is
  what the run writes and how it ends.
\<close>






section \<open>What the files say\<close>

text \<open>
  The notions the properties are stated with, written after the description of the two
  tables and not after the loops above.
\<close>

text \<open>Appending an element that the list does not hold yet.\<close>

definition append_new :: "'a \<Rightarrow> 'a list \<Rightarrow> 'a list" where
  "append_new x xs = (if x \<in> set xs then xs else xs @ [x])"

text \<open>
  The elements of a list in the order of their first occurrence, each once: the head,
  then the first occurrences of the rest without the head.
\<close>

primrec first_occurrences :: "'a list \<Rightarrow> 'a list" where
  "first_occurrences [] = []"
| "first_occurrences (x # xs) = x # filter (\<lambda>y. y \<noteq> x) (first_occurrences xs)"

text \<open>
  The comparison a line of the contrasts table stands for: its first two cells, cleaned,
  when the line has two cells and neither is blank.
\<close>

definition comparison_row :: "string \<Rightarrow> string \<Rightarrow> (string \<times> string) option" where
  "comparison_row delim line =
     (case str_split line delim of
        Inl _ \<Rightarrow> None
      | Inr cells \<Rightarrow>
          (case map (\<lambda>l. clean (strip l)) cells of
             g1 # g2 # _ \<Rightarrow> if g1 \<noteq> [] \<and> g2 \<noteq> [] then Some (g1, g2) else None
           | _ \<Rightarrow> None))"

text \<open>The comparisons of the lines of a file, in file order.\<close>

definition comparison_rows :: "string \<Rightarrow> string list \<Rightarrow> (string \<times> string) list" where
  "comparison_rows delim ls = List.map_filter (comparison_row delim) ls"

text \<open>The group names the comparisons of a file refer to, left before right, in file order.\<close>

definition referenced :: "string \<Rightarrow> string list \<Rightarrow> string list" where
  "referenced delim ls = concat (map (\<lambda>(g1, g2). [g1, g2]) (comparison_rows delim ls))"

text \<open>Those of them that are not among the known groups.\<close>

definition undefined_groups :: "string list \<Rightarrow> string \<Rightarrow> string list \<Rightarrow> string list" where
  "undefined_groups known_groups delim ls =
     filter (\<lambda>g. g \<notin> set known_groups) (referenced delim ls)"

text \<open>
  The sample and the group tokens of an accepted data row of the group table: the row has
  a cell at both column positions, and neither the cleaned sample nor the group cell is
  empty.
\<close>

definition group_row :: "string \<Rightarrow> int \<Rightarrow> int \<Rightarrow> string \<Rightarrow> (string \<times> string list) option" where
  "group_row delim s_index g_index line =
     (case str_split line delim of
        Inl _ \<Rightarrow> None
      | Inr cells \<Rightarrow>
          (case (get (map strip cells) s_index, get (map strip cells) g_index) of
             (Inr sample_cell, Inr group_cell) \<Rightarrow>
               if clean sample_cell \<noteq> [] \<and> group_cell \<noteq> []
               then Some (clean sample_cell,
                          map (\<lambda>g. clean (strip g)) (re_split group_cell))
               else None
           | _ \<Rightarrow> None))"

text \<open>The pairs of group and sample that the accepted rows state, in file order.\<close>

definition memberships :: "string \<Rightarrow> int \<Rightarrow> int \<Rightarrow> string list \<Rightarrow> (string \<times> string) list" where
  "memberships delim s_index g_index rows =
     concat (map (\<lambda>(sample, tokens). map (\<lambda>g. (g, sample)) tokens)
                 (List.map_filter (group_row delim s_index g_index) rows))"

text \<open>The samples stated for the group \<open>g\<close>, in file order, with repetitions.\<close>

definition samples_of :: "string \<Rightarrow> (string \<times> string) list \<Rightarrow> string list" where
  "samples_of g ms = map snd (filter (\<lambda>m. fst m = g) ms)"

text \<open>The lines after the header, when the file has one.\<close>

definition data_rows :: "bool \<Rightarrow> string list \<Rightarrow> string list" where
  "data_rows header ls = (if header then drop 1 ls else ls)"

section \<open>Example files\<close>

text \<open>
  Small files on which the properties below are run. \<open>tsv_line\<close> is a line of cells
  separated by tabs, with its newline.
\<close>

definition tsv_line :: "string list \<Rightarrow> string" where
  "tsv_line cells = join [CHR 0x09] cells @ [CHR 0x0A]"

definition groups_tsv :: textfile where
  "groups_tsv =
     \<lparr>path = ''groups.tsv'',
      lines = [tsv_line [''Sample'', ''Group''],
               tsv_line [''Sample_A_rep1'', ''GrpA,GrpAB''],
               tsv_line [''Sample_B_rep1'', ''GrpB,GrpAB''],
               tsv_line [''Sample_A_rep1'', ''GrpA''],
               tsv_line [''''],
               tsv_line [''Sample_C''],
               tsv_line [''Sample_D'', '''']]\<rparr>"

definition headerless_tsv :: textfile where
  "headerless_tsv =
     \<lparr>path = ''headerless.tsv'',
      lines = [tsv_line [''S1'', ''G1''], tsv_line [''S2'', ''G2'']]\<rparr>"

definition empty_tsv :: textfile where
  "empty_tsv = \<lparr>path = ''empty.tsv'', lines = []\<rparr>"

definition groups_csv :: textfile where
  "groups_csv =
     \<lparr>path = ''groups.csv'',
      lines = [''sample,group'' @ [CHR 0x0A], ''S1,G1'' @ [CHR 0x0A]]\<rparr>"

definition known_example :: "string list" where
  "known_example = [''G1'', ''G2'', ''G3'', ''G4'', ''G5'']"

definition contrasts_tsv :: textfile where
  "contrasts_tsv =
     \<lparr>path = ''contrasts.tsv'',
      lines = [tsv_line [''G2'', ''G1''], tsv_line [''G4'', ''G3''], tsv_line [''G5'', ''G1'']]\<rparr>"

definition undefined_tsv :: textfile where
  "undefined_tsv =
     \<lparr>path = ''undefined.tsv'',
      lines = [tsv_line [''G2'', ''G1''], tsv_line [''G9'', ''G1''], tsv_line [''G9'', ''G7'']]\<rparr>"

definition repeated_tsv :: textfile where
  "repeated_tsv =
     \<lparr>path = ''repeated.tsv'',
      lines = [tsv_line [''G1'', ''G2''], tsv_line [''G2'', ''G1''], tsv_line [''G1'', ''G2'']]\<rparr>"

section \<open>Auxiliary facts\<close>

lemma get_0: "get xs 0 = (case xs of [] \<Rightarrow> Inl IndexError | x # _ \<Rightarrow> Inr x)"
  by (cases xs) (simp_all add: get_def)

lemma get_1: "get xs 1 = (case xs of x # y # _ \<Rightarrow> Inr y | _ \<Rightarrow> Inl IndexError)"
  by (simp add: get_def split: list.splits)


lemma fold_append_new:
  "fold append_new xs acc = acc @ filter (\<lambda>x. x \<notin> set acc) (first_occurrences xs)"
proof (induction xs arbitrary: acc)
  case Nil
  show ?case by simp
next
  case (Cons x xs)
  show ?case
  proof (cases "x \<in> set acc")
    case True
    then have "filter (\<lambda>y. y \<notin> set acc) (filter (\<lambda>y. y \<noteq> x) (first_occurrences xs))
             = filter (\<lambda>y. y \<notin> set acc) (first_occurrences xs)"
      by (auto intro: filter_cong)
    with True Cons.IH [of acc] show ?thesis
      by (simp add: append_new_def)
  next
    case False
    have "filter (\<lambda>y. y \<notin> set (acc @ [x])) (first_occurrences xs)
        = filter (\<lambda>y. y \<notin> set acc) (filter (\<lambda>y. y \<noteq> x) (first_occurrences xs))"
      by (auto intro: filter_cong)
    with False Cons.IH [of "acc @ [x]"] show ?thesis
      by (simp add: append_new_def)
  qed
qed

lemma set_first_occurrences: "set (first_occurrences xs) = set xs"
  by (induction xs) auto

lemma distinct_first_occurrences: "distinct (first_occurrences xs)"
  by (induction xs) (auto simp: set_first_occurrences)

lemma first_occurrences_distinct: "distinct xs \<Longrightarrow> first_occurrences xs = xs"
  by (induction xs) (auto simp: set_first_occurrences intro: filter_True)

lemma contrasts_line_row:
  assumes "str_split line delim = Inr cells"
  shows "\<exists>w. contrasts_line p known delim n line (errs, comps) =
           Inr (w, case comparison_row delim line of
                     None \<Rightarrow> (errs, comps)
                   | Some (g1, g2) \<Rightarrow>
                       (errs @ filter (\<lambda>g. g \<notin> set known) [g1, g2], append_new (g1, g2) comps))"
  using assms
  by (auto simp: contrasts_line_def comparison_row_def get_0 get_1 append_new_def Let_def
           split: list.splits)

lemma comparison_row_empty_delim: "comparison_row [] line = None"
  by (simp add: comparison_row_def str_split_def)

lemma comparison_rows_empty_delim: "comparison_rows [] ls = []"
  by (induction ls) (simp_all add: comparison_rows_def List.map_filter_simps comparison_row_empty_delim)

lemma comparison_rows_Cons:
  "comparison_rows delim (l # ls) =
     (case comparison_row delim l of None \<Rightarrow> comparison_rows delim ls
      | Some r \<Rightarrow> r # comparison_rows delim ls)"
  by (simp add: comparison_rows_def split: option.splits)

lemma undefined_groups_Cons:
  "undefined_groups known delim (l # ls) =
     (case comparison_row delim l of None \<Rightarrow> undefined_groups known delim ls
      | Some (g1, g2) \<Rightarrow> filter (\<lambda>g. g \<notin> set known) [g1, g2] @ undefined_groups known delim ls)"
  by (simp add: undefined_groups_def referenced_def comparison_rows_Cons split: option.splits)

lemma undefined_groups_Nil: "undefined_groups known delim [] = []"
  by (simp add: undefined_groups_def referenced_def comparison_rows_def List.map_filter_simps)

lemma contrasts_loop_result:
  assumes "delim \<noteq> []"
  shows "\<exists>log. contrasts_loop p known delim n ls (errs, comps) =
           (log, Inr (errs @ undefined_groups known delim ls,
                      fold append_new (comparison_rows delim ls) comps))"
proof (induction ls arbitrary: n errs comps)
  case Nil
  show ?case by (simp add: undefined_groups_Nil comparison_rows_def List.map_filter_simps)
next
  case (Cons l ls)
  from assms have sp: "str_split l delim = Inr (split_sep delim l)"
    by (simp add: str_split_def)
  from contrasts_line_row [OF sp, of p known "n + 1" errs comps]
  obtain w where w: "contrasts_line p known delim (n + 1) l (errs, comps) =
           Inr (w, case comparison_row delim l of
                     None \<Rightarrow> (errs, comps)
                   | Some (g1, g2) \<Rightarrow>
                       (errs @ filter (\<lambda>g. g \<notin> set known) [g1, g2], append_new (g1, g2) comps))"
    by blast
  show ?case
  proof (cases "comparison_row delim l")
    case None
    from Cons.IH [of "n + 1" errs comps] obtain log where
      "contrasts_loop p known delim (n + 1) ls (errs, comps) =
         (log, Inr (errs @ undefined_groups known delim ls,
                    fold append_new (comparison_rows delim ls) comps))" by blast
    with w None show ?thesis
      by (simp add: after_def undefined_groups_Cons comparison_rows_Cons)
  next
    case (Some r)
    obtain g1 g2 where r: "r = (g1, g2)" by (cases r)
    from Cons.IH [of "n + 1" "errs @ filter (\<lambda>g. g \<notin> set known) [g1, g2]" "append_new (g1, g2) comps"]
    obtain log where
      "contrasts_loop p known delim (n + 1) ls
          (errs @ filter (\<lambda>g. g \<notin> set known) [g1, g2], append_new (g1, g2) comps) =
         (log, Inr ((errs @ filter (\<lambda>g. g \<notin> set known) [g1, g2]) @ undefined_groups known delim ls,
                    fold append_new (comparison_rows delim ls) (append_new (g1, g2) comps)))" by blast
    with w Some r show ?thesis
      by (simp add: after_def undefined_groups_Cons comparison_rows_Cons)
  qed
qed

lemma contrasts_loop_empty_delim:
  "contrasts_loop p known [] n (l # ls) st = ([], Inl ValueError)"
  by (simp add: contrasts_line_def str_split_def)

lemma undefined_groups_empty_delim: "undefined_groups known [] ls = []"
  by (simp add: undefined_groups_def referenced_def comparison_rows_empty_delim)

lemma after_Nil: "after [] r = r"
  by (simp add: after_def)

lemma lower_sample: "lower ''sample'' = ''sample''"
  by code_simp

lemma lower_group: "lower ''group'' = ''group''"
  by code_simp

lemma list_index_None: "list_index xs x = None \<longleftrightarrow> x \<notin> set xs"
  by (induction xs) auto

lemma list_index_Some:
  "list_index xs x = Some i \<Longrightarrow> 0 \<le> i \<and> nat i < length xs \<and> xs ! nat i = x"
proof (induction xs arbitrary: i)
  case Nil
  then show ?case by simp
next
  case (Cons y ys)
  show ?case
  proof (cases "y = x")
    case True
    with Cons.prems show ?thesis by simp
  next
    case False
    with Cons.prems obtain j where j: "list_index ys x = Some j" "i = j + 1"
      by auto
    from Cons.IH [OF j(1)] j(2) show ?thesis
      by (simp add: nat_add_distrib)
  qed
qed

lemma positional_other:
  "k \<notin> set rs \<Longrightarrow> map_of (positional rs i ind) k = map_of ind k"
  by (induction rs arbitrary: i ind) (auto simp: update_conv')


lemma list_index_SomeD: "list_index xs x = Some i \<Longrightarrow> x \<in> set xs"
  using list_index_None [of xs x] by auto

lemma find_required_found:
  "snd (find_required h req ind) \<longleftrightarrow> (\<forall>r\<in>set req. lower r \<in> set h)"
proof (induction req arbitrary: ind)
  case Nil
  show ?case by simp
next
  case (Cons r req)
  show ?case
  proof (cases "list_index h (lower r)")
    case None
    then have "lower r \<notin> set h" by (simp add: list_index_None)
    with None show ?thesis by (simp add: Let_def)
  next
    case (Some i)
    with Cons.IH [of "AList.update (lower r) i ind"] list_index_SomeD [OF Some]
    show ?thesis by (simp add: Let_def)
  qed
qed

lemma find_required_default:
  "find_required h [''sample'', ''group''] [] =
     (case list_index h ''sample'' of
        None \<Rightarrow> ([], False)
      | Some si \<Rightarrow>
          (case list_index h ''group'' of
             None \<Rightarrow> ([(''sample'', si)], False)
           | Some gi \<Rightarrow> ([(''sample'', si), (''group'', gi)], True)))"
  by (simp add: lower_sample lower_group Let_def split: option.splits)

lemma index_nonempty:
  assumes "lines file = first # rest" "delim \<noteq> []"
  shows "index file delim required =
     (case find_required (header_cells (split_sep delim (strip first))) required [] of
        (indices, True) \<Rightarrow> ([], Inr (indices, True))
      | (indices, False) \<Rightarrow>
          ([MissingColumnNames (path file), MakingAssumptions],
           Inr (positional required 0 indices, False)))"
  using assms by (simp add: index_def str_split_def)

lemma groups_unfold:
  assumes "index file [CHR 0x09] [''sample'', ''group''] = (ilog, Inr (indices, hdr))"
  shows "\<exists>si gi. map_of indices ''sample'' = Some si \<and> map_of indices ''group'' = Some gi \<and>
           groups file delim =
             after ilog (groups_loop delim si gi (if hdr then 1 else 0)
                                     (data_rows hdr (lines file)) [])"
proof (cases "lines file")
  case Nil
  with assms show ?thesis by (simp add: index_def)
next
  case (Cons first rest)
  from assms show ?thesis
    unfolding groups_def index_nonempty [OF Cons, of "[CHR 0x09]", simplified] find_required_default
    using Cons
    by (auto simp: data_rows_def split: option.splits)
qed

lemma groups_by_header:
  assumes "lines file = first # rest"
  shows "groups file delim =
     (case list_index (header_cells (split_sep [CHR 0x09] (strip first))) ''sample'' of
        None \<Rightarrow> after [MissingColumnNames (path file), MakingAssumptions]
                  (groups_loop delim 0 1 0 (first # rest) [])
      | Some si \<Rightarrow>
          (case list_index (header_cells (split_sep [CHR 0x09] (strip first))) ''group'' of
             None \<Rightarrow> after [MissingColumnNames (path file), MakingAssumptions]
                       (groups_loop delim 0 1 0 (first # rest) [])
           | Some gi \<Rightarrow> groups_loop delim si gi 1 rest []))"
  unfolding groups_def index_nonempty [OF assms, of "[CHR 0x09]", simplified] find_required_default
  using assms
  by (simp add: after_Nil split: option.splits)

lemma add_sample_fold: "add_sample s toks G = fold (add_member s) toks G"
  by (induction toks arbitrary: G) simp_all

lemma add_member_eq:
  "add_member s g G =
     AList.update g (append_new s (case map_of G g of None \<Rightarrow> [] | Some ms \<Rightarrow> ms)) G"
  by (auto simp: add_member_def append_new_def update_conv' Let_def AList.update_triv
           split: option.splits)

lemma map_of_add_member:
  "map_of (add_member s g G) =
     (map_of G)(g \<mapsto> append_new s (case map_of G g of None \<Rightarrow> [] | Some ms \<Rightarrow> ms))"
  by (simp add: add_member_eq update_conv')

lemma distinct_add_member:
  "distinct (map fst G) \<Longrightarrow> distinct (map fst (add_member s g G))"
  by (simp add: add_member_eq distinct_update)

lemma distinct_fold_add_member:
  "distinct (map fst G) \<Longrightarrow> distinct (map fst (fold (\<lambda>(g, s). add_member s g) ps G))"
  by (induction ps arbitrary: G) (auto simp: distinct_add_member)

lemma fold_add_member_map_of:
  "map_of (fold (\<lambda>(g, s). add_member s g) ps G) g =
     (if map_of G g = None \<and> g \<notin> fst ` set ps then None
      else Some (fold append_new (samples_of g ps)
                   (case map_of G g of None \<Rightarrow> [] | Some ms \<Rightarrow> ms)))"
proof (induction ps arbitrary: G)
  case Nil
  show ?case by (simp add: samples_of_def split: option.splits)
next
  case (Cons p ps)
  obtain t s where p: "p = (t, s)" by (cases p)
  show ?case
    using Cons.IH [of "add_member s t G"]
    by (auto simp: p map_of_add_member samples_of_def split: option.splits)
qed

lemma groups_line_row:
  assumes "delim \<noteq> []"
  shows "\<exists>w. groups_line delim si gi n line G =
           Inr (w, case group_row delim si gi line of
                     None \<Rightarrow> G
                   | Some (s, toks) \<Rightarrow> fold (add_member s) toks G)"
  using assms
  by (auto simp: groups_line_def group_row_def str_split_def add_sample_fold Let_def
           split: sum.splits)

lemma memberships_Nil: "memberships delim si gi [] = []"
  by (simp add: memberships_def)

lemma memberships_Cons:
  "memberships delim si gi (l # ls) =
     (case group_row delim si gi l of
        None \<Rightarrow> memberships delim si gi ls
      | Some (s, toks) \<Rightarrow> map (\<lambda>g. (g, s)) toks @ memberships delim si gi ls)"
  by (simp add: memberships_def split: option.splits)

lemma fold_add_tokens:
  "fold (\<lambda>(g, s). add_member s g) (map (\<lambda>g. (g, s)) toks) G = fold (add_member s) toks G"
  by (induction toks arbitrary: G) simp_all

lemma groups_loop_result:
  assumes "delim \<noteq> []"
  shows "\<exists>log. groups_loop delim si gi n ls G =
           (log, Inr (fold (\<lambda>(g, s). add_member s g) (memberships delim si gi ls) G))"
proof (induction ls arbitrary: n G)
  case Nil
  show ?case by (simp add: memberships_Nil)
next
  case (Cons l ls)
  from groups_line_row [OF assms, of si gi "n + 1" l G]
  obtain w where w: "groups_line delim si gi (n + 1) l G =
           Inr (w, case group_row delim si gi l of
                     None \<Rightarrow> G
                   | Some (s, toks) \<Rightarrow> fold (add_member s) toks G)" by blast
  define G' where "G' = (case group_row delim si gi l of
                     None \<Rightarrow> G
                   | Some (s, toks) \<Rightarrow> fold (add_member s) toks G)"
  from Cons.IH [of "n + 1" G'] obtain log where
    log: "groups_loop delim si gi (n + 1) ls G' =
           (log, Inr (fold (\<lambda>(g, s). add_member s g) (memberships delim si gi ls) G'))" by blast
  have "fold (\<lambda>(g, s). add_member s g) (memberships delim si gi (l # ls)) G
      = fold (\<lambda>(g, s). add_member s g) (memberships delim si gi ls) G'"
    by (simp add: memberships_Cons G'_def fold_add_tokens split: option.splits)
  with w log show ?case
    by (simp add: after_def G'_def)
qed

lemma groups_loop_Inr:
  assumes "groups_loop delim si gi n ls G = (log, Inr m)"
  shows "m = fold (\<lambda>(g, s). add_member s g) (memberships delim si gi ls) G"
proof (cases "delim = []")
  case True
  show ?thesis
  proof (cases ls)
    case Nil
    with assms show ?thesis by (simp add: memberships_Nil)
  next
    case (Cons l ls')
    with assms True show ?thesis
      by (simp add: groups_line_def str_split_def)
  qed
next
  case False
  from groups_loop_result [OF False, of si gi n ls G] assms show ?thesis
    by auto
qed



lemma map_of_groups_result:
  "map_of (fold (\<lambda>(g, s). add_member s g) ms []) g =
     (if g \<notin> fst ` set ms then None else Some (first_occurrences (samples_of g ms)))"
  by (simp add: fold_add_member_map_of fold_append_new)


lemma groups_Inr:
  assumes "groups file delim = (log, Inr m)"
    and "index file [CHR 0x09] [''sample'', ''group''] = (ilog, Inr (indices, hdr))"
    and "map_of indices ''sample'' = Some si"
    and "map_of indices ''group'' = Some gi"
  shows "m = fold (\<lambda>(g, s). add_member s g)
               (memberships delim si gi (data_rows hdr (lines file))) []"
proof -
  from groups_unfold [OF assms(2), of delim] assms(3,4)
  have "groups file delim =
          after ilog (groups_loop delim si gi (if hdr then 1 else 0) (data_rows hdr (lines file)) [])"
    by auto
  with assms(1) have "snd (groups_loop delim si gi (if hdr then 1 else 0)
                             (data_rows hdr (lines file)) []) = Inr m"
    by (simp add: after_def)
  then show ?thesis
    using groups_loop_Inr [of delim si gi "if hdr then 1 else 0" "data_rows hdr (lines file)" "[]" _ m]
    by (metis prod.collapse)
qed




lemma find_required_map_of:
  "snd (find_required h req ind) \<Longrightarrow>
   map_of (fst (find_required h req ind)) =
     (\<lambda>k. if k \<in> lower ` set req then list_index h k else map_of ind k)"
proof (induction req arbitrary: ind)
  case Nil
  show ?case by simp
next
  case (Cons r req)
  show ?case
  proof (cases "list_index h (lower r)")
    case None
    with Cons.prems show ?thesis by (simp add: Let_def)
  next
    case (Some i)
    with Cons.prems have "snd (find_required h req (AList.update (lower r) i ind))"
      by (simp add: Let_def)
    from Cons.IH [OF this] Some show ?thesis
      by (auto simp: Let_def update_conv' fun_eq_iff)
  qed
qed

lemma find_required_dom:
  "dom (map_of (fst (find_required h req ind))) \<subseteq> dom (map_of ind) \<union> lower ` set req"
proof (induction req arbitrary: ind)
  case Nil
  show ?case by simp
next
  case (Cons r req)
  show ?case
  proof (cases "list_index h (lower r)")
    case None
    then show ?thesis by (auto simp: Let_def)
  next
    case (Some i)
    with Cons.IH [of "AList.update (lower r) i ind"] show ?thesis
      by (auto simp: Let_def update_conv')
  qed
qed

lemma positional_dom:
  "dom (map_of (positional rs i ind)) = dom (map_of ind) \<union> set rs"
  by (induction rs arbitrary: i ind) (auto simp: update_conv')

lemma positional_range:
  "k \<in> set rs \<Longrightarrow> map_of (positional rs i ind) k = Some v \<Longrightarrow> i \<le> v \<and> v < i + int (length rs)"
proof (induction rs arbitrary: i ind)
  case Nil
  then show ?case by simp
next
  case (Cons r rs)
  show ?case
  proof (cases "k \<in> set rs")
    case True
    from Cons.IH [OF True, of "i + 1" "AList.update r i ind"] Cons.prems(2)
    show ?thesis by simp
  next
    case False
    with Cons.prems show ?thesis
      by (simp add: positional_other update_conv')
  qed
qed

lemma snd_after: "snd (after msgs r) = snd r"
  by (simp add: after_def)

lemma snd_groups_lines:
  assumes "lines file1 = lines file2"
  shows "snd (groups file1 delim) = snd (groups file2 delim)"
proof (cases "lines file2")
  case Nil
  with assms show ?thesis by (simp add: groups_def index_def)
next
  case (Cons first rest)
  with assms have l1: "lines file1 = first # rest" by simp
  note g1 = groups_by_header [OF l1, of delim]
  note g2 = groups_by_header [OF Cons, of delim]
  show ?thesis
  proof (cases "list_index (header_cells (split_sep [CHR 0x09] (strip first))) ''sample''")
    case None
    with g1 g2 show ?thesis by (simp only: option.case snd_after)
  next
    case si: (Some si)
    show ?thesis
    proof (cases "list_index (header_cells (split_sep [CHR 0x09] (strip first))) ''group''")
      case None
      with si g1 g2 show ?thesis by (simp only: option.case snd_after)
    next
      case (Some gi)
      with si g1 g2 show ?thesis by (simp only: option.case)
    qed
  qed
qed

lemma snd_contrasts:
  "snd (contrasts file known delim) =
     (if delim = [] then (if lines file = [] then Inr [] else Inl ValueError)
      else if undefined_groups known delim (lines file) \<noteq> [] then Inl SystemExit
      else Inr (first_occurrences (comparison_rows delim (lines file))))"
proof (cases "delim = []")
  case True
  show ?thesis
  proof (cases "lines file")
    case Nil
    with True show ?thesis by (simp add: contrasts_def)
  next
    case (Cons l ls)
    with True contrasts_loop_empty_delim [of "path file" known 0 l ls "([], [])"]
    show ?thesis by (simp add: contrasts_def del: contrasts_loop.simps)
  qed
next
  case False
  from contrasts_loop_result [OF False, of "path file" known 0 "lines file" "[]" "[]"]
  obtain log where "contrasts_loop (path file) known delim 0 (lines file) ([], []) =
           (log, Inr (undefined_groups known delim (lines file),
                      fold append_new (comparison_rows delim (lines file)) []))"
    by auto
  with False show ?thesis
    by (simp add: contrasts_def fold_append_new)
qed

lemma get_Inl: "get xs i = Inl e \<Longrightarrow> e = IndexError"
  by (simp add: get_def split: if_splits)











section \<open>The properties\<close>

subsection \<open>Undefined groups are fatal\<close>

text \<open>
  Claim C1. A line refers to a group when it stands for a comparison (two cells, neither
  blank) and the group is its left or its right side. When the comparisons of the file
  refer to a group that is not known, \<open>contrasts\<close> ends in \<open>SystemExit\<close>; the last
  message it writes is the list of all such names, in file order and with repetitions,
  joined by commas, and no comparison list is returned. Whenever \<open>contrasts\<close> returns a
  list, no comparison of the file refers to an unknown group.
\<close>

theorem contrasts_undefined_groups_fatal:
  "(undefined_groups known_groups delim (lines file) \<noteq> [] \<longrightarrow>
      (\<exists>log. contrasts file known_groups delim =
         (log @ [UndefinedGroups (path file),
                 UndefinedList (join '','' (undefined_groups known_groups delim (lines file)))],
          Inl SystemExit)))
   \<and> (\<forall>cs. snd (contrasts file known_groups delim) = Inr cs \<longrightarrow>
         undefined_groups known_groups delim (lines file) = [])"
proof (cases "delim = []")
  case True
  then show ?thesis by (simp add: undefined_groups_empty_delim)
next
  case False
  from contrasts_loop_result [OF False, of "path file" known_groups 0 "lines file" "[]" "[]"]
  obtain log where "contrasts_loop (path file) known_groups delim 0 (lines file) ([], []) =
           (log, Inr (undefined_groups known_groups delim (lines file),
                      fold append_new (comparison_rows delim (lines file)) []))"
    by auto
  then show ?thesis
    by (simp add: contrasts_def)
qed

theorem contrasts_undefined_groups_fatal_witness:
  "(\<exists>log. contrasts undefined_tsv known_example [CHR 0x09] =
            (log @ [UndefinedGroups ''undefined.tsv'', UndefinedList ''G9,G9,G7''],
             Inl SystemExit))
   \<and> undefined_groups known_example [CHR 0x09] (lines contrasts_tsv) = []"
proof -
  have u: "undefined_groups known_example [CHR 0x09] (lines undefined_tsv)
             = [''G9'', ''G9'', ''G7'']"
    by code_simp
  have p: "path undefined_tsv = ''undefined.tsv''"
    by (simp add: undefined_tsv_def)
  have r: "snd (contrasts contrasts_tsv known_example [CHR 0x09])
             = Inr [(''G2'', ''G1''), (''G4'', ''G3''), (''G5'', ''G1'')]"
    by code_simp
  from contrasts_undefined_groups_fatal [of known_example "[CHR 0x09]" undefined_tsv] u p
  have A: "\<exists>log. contrasts undefined_tsv known_example [CHR 0x09] =
            (log @ [UndefinedGroups ''undefined.tsv'', UndefinedList ''G9,G9,G7''],
             Inl SystemExit)"
    by simp
  from contrasts_undefined_groups_fatal [of known_example "[CHR 0x09]" contrasts_tsv] r
  have B: "undefined_groups known_example [CHR 0x09] (lines contrasts_tsv) = []"
    by simp
  from A B show ?thesis by blast
qed

subsection \<open>The empty file\<close>

text \<open>
  Claim C2. On a file with no line \<open>index\<close> writes the two messages of the empty file
  and ends in \<open>SystemExit\<close>, and so does \<open>groups\<close>, whatever its delimiter: neither
  returns a value. On a file with a line \<open>index\<close> does not end in \<open>SystemExit\<close>, does
  not write the message of the empty file, and does what it does on the file cut down to
  its first line.
\<close>

theorem index_empty_file_fatal:
  "(lines file = [] \<longrightarrow>
      index file delim required = ([EmptyFile (path file), AddInformation], Inl SystemExit)
      \<and> groups file delim' = ([EmptyFile (path file), AddInformation], Inl SystemExit))
   \<and> (lines file \<noteq> [] \<longrightarrow>
        snd (index file delim required) \<noteq> Inl SystemExit
        \<and> EmptyFile (path file) \<notin> set (fst (index file delim required))
        \<and> index file delim required = index (file\<lparr>lines := [hd (lines file)]\<rparr>) delim required)"
proof (cases "lines file")
  case Nil
  then show ?thesis by (simp add: index_def groups_def)
next
  case (Cons first rest)
  then show ?thesis
    by (auto simp: index_def str_split_def split: sum.splits prod.splits bool.splits if_splits)
qed

theorem index_empty_file_fatal_witness:
  "index empty_tsv [CHR 0x09] [''sample'', ''group'']
     = ([EmptyFile ''empty.tsv'', AddInformation], Inl SystemExit)
   \<and> groups empty_tsv '','' = ([EmptyFile ''empty.tsv'', AddInformation], Inl SystemExit)
   \<and> snd (index groups_tsv [CHR 0x09] [''sample'', ''group'']) \<noteq> Inl SystemExit
   \<and> index groups_tsv [CHR 0x09] [''sample'', ''group'']
       = index (groups_tsv\<lparr>lines := [tsv_line [''Sample'', ''Group'']]\<rparr>)
               [CHR 0x09] [''sample'', ''group'']"
proof -
  have e: "lines empty_tsv = []" "path empty_tsv = ''empty.tsv''"
    by (simp_all add: empty_tsv_def)
  have g: "lines groups_tsv \<noteq> []" "hd (lines groups_tsv) = tsv_line [''Sample'', ''Group'']"
    by (simp_all add: groups_tsv_def)
  from index_empty_file_fatal [of empty_tsv "[CHR 0x09]" "[''sample'', ''group'']" "'',''"] e
  have A: "index empty_tsv [CHR 0x09] [''sample'', ''group'']
             = ([EmptyFile ''empty.tsv'', AddInformation], Inl SystemExit)
           \<and> groups empty_tsv '','' = ([EmptyFile ''empty.tsv'', AddInformation], Inl SystemExit)"
    by simp
  note t = index_empty_file_fatal
             [of groups_tsv "[CHR 0x09]" "[''sample'', ''group'']",
              THEN conjunct2, THEN mp, OF g(1), unfolded g(2)]
  from A t [THEN conjunct1] t [THEN conjunct2, THEN conjunct2] show ?thesis by blast
qed

subsection \<open>The positional fallback\<close>



subsection \<open>Duplicate comparisons\<close>

text \<open>
  Claim C4. When \<open>contrasts\<close> returns a list, the list is the comparisons of the file
  in the order of their first occurrence: every comparison of the file is in it, each
  once. The pairs are ordered pairs, so \<open>(A, B)\<close> and \<open>(B, A)\<close> are two of them.
\<close>

theorem contrasts_first_occurrences:
  assumes "contrasts file known_groups delim = (log, Inr cs)"
  shows "cs = first_occurrences (comparison_rows delim (lines file))
       \<and> distinct cs
       \<and> set cs = set (comparison_rows delim (lines file))"
proof -
  have "cs = first_occurrences (comparison_rows delim (lines file))"
  proof (cases "delim = []")
    case True
    show ?thesis
    proof (cases "lines file")
      case Nil
      with assms show ?thesis by (simp add: contrasts_def comparison_rows_def List.map_filter_simps)
    next
      case (Cons l ls)
      with assms True show ?thesis
        by (simp add: contrasts_def contrasts_line_def str_split_def)
    qed
  next
    case False
    from contrasts_loop_result [OF False, of "path file" known_groups 0 "lines file" "[]" "[]"]
    obtain log' where "contrasts_loop (path file) known_groups delim 0 (lines file) ([], []) =
           (log', Inr (undefined_groups known_groups delim (lines file),
                      fold append_new (comparison_rows delim (lines file)) []))"
      by auto
    with assms show ?thesis
      by (simp add: contrasts_def fold_append_new split: if_splits)
  qed
  then show ?thesis
    by (simp add: distinct_first_occurrences set_first_occurrences)
qed

theorem contrasts_first_occurrences_witness:
  "[(''G1'', ''G2''), (''G2'', ''G1'')]
     = first_occurrences (comparison_rows [CHR 0x09] (lines repeated_tsv))
   \<and> distinct [(''G1'', ''G2''), (''G2'', ''G1'')]
   \<and> set [(''G1'', ''G2''), (''G2'', ''G1'')]
       = set (comparison_rows [CHR 0x09] (lines repeated_tsv))"
proof -
  have c: "contrasts repeated_tsv known_example [CHR 0x09]
             = ([], Inr [(''G1'', ''G2''), (''G2'', ''G1'')])"
    by code_simp
  from contrasts_first_occurrences [OF c] show ?thesis .
qed

subsection \<open>Several groups in one cell\<close>



subsection \<open>Membership is idempotent and ordered\<close>

text \<open>
  Claim C6. In the mapping that \<open>groups\<close> returns every group is a key once, no sample
  is twice in the list of a group, and the list of a group is the samples that the
  accepted rows state for it, in the order of their first occurrence in the file.
\<close>

theorem groups_members_first_seen:
  assumes "groups file delim = (log, Inr m)"
    and "index file [CHR 0x09] [''sample'', ''group''] = (ilog, Inr (indices, hdr))"
    and "map_of indices ''sample'' = Some si"
    and "map_of indices ''group'' = Some gi"
  shows "distinct (map fst m)
       \<and> (\<forall>g members. map_of m g = Some members \<longrightarrow>
            distinct members
            \<and> members = first_occurrences
                          (samples_of g (memberships delim si gi (data_rows hdr (lines file)))))"
proof -
  have m: "m = fold (\<lambda>(g, s). add_member s g)
                 (memberships delim si gi (data_rows hdr (lines file))) []"
    by (rule groups_Inr [OF assms])
  have "distinct (map fst m)"
    unfolding m by (rule distinct_fold_add_member) simp
  moreover have "distinct members
            \<and> members = first_occurrences
                          (samples_of g (memberships delim si gi (data_rows hdr (lines file))))"
    if "map_of m g = Some members" for g members
    using that unfolding m map_of_groups_result
    by (auto simp: distinct_first_occurrences split: if_splits)
  ultimately show ?thesis by blast
qed

theorem groups_members_first_seen_witness:
  "\<exists>m. snd (groups groups_tsv [CHR 0x09]) = Inr m
      \<and> distinct (map fst m)
      \<and> map_of m ''GrpAB'' = Some [''Sample_A_rep1'', ''Sample_B_rep1'']
      \<and> [''Sample_A_rep1'', ''Sample_B_rep1'']
          = first_occurrences
              (samples_of ''GrpAB''
                 (memberships [CHR 0x09] 0 1 (data_rows True (lines groups_tsv))))"
proof -
  have g: "groups groups_tsv [CHR 0x09] =
             ([ColumnMissing 6 [''Sample_C''], InformationMissing 7 [''Sample_D'', []]],
              Inr [(''GrpA'', [''Sample_A_rep1'']),
                   (''GrpAB'', [''Sample_A_rep1'', ''Sample_B_rep1'']),
                   (''GrpB'', [''Sample_B_rep1''])])"
    by code_simp
  have i: "index groups_tsv [CHR 0x09] [''sample'', ''group''] =
             ([], Inr ([(''sample'', 0), (''group'', 1)], True))"
    by code_simp
  have s: "map_of [(''sample'', 0 :: int), (''group'', 1)] ''sample'' = Some 0"
    and gi: "map_of [(''sample'', 0 :: int), (''group'', 1)] ''group'' = Some 1"
    by simp_all
  have k: "map_of [(''GrpA'', [''Sample_A_rep1'']),
                   (''GrpAB'', [''Sample_A_rep1'', ''Sample_B_rep1'']),
                   (''GrpB'', [''Sample_B_rep1''])] ''GrpAB''
             = Some [''Sample_A_rep1'', ''Sample_B_rep1'']"
    by simp
  note t = groups_members_first_seen [OF g i s gi]
  from t [THEN conjunct1] t [THEN conjunct2, rule_format, OF k] g k
  show ?thesis by auto
qed

subsection \<open>Malformed lines are skipped\<close>

text \<open>
  Claim C7. On a file with a line and with a separator as delimiter \<open>groups\<close> returns
  a mapping. In its loop, a line that has no cell at the sample or at the group column
  leaves the mapping as it is and the loop goes on with the next line, after a warning
  when some cell of the line is not empty and after no message when all are empty; a
  line whose cleaned sample cell or whose group cell is empty leaves the mapping as it
  is and the loop goes on with the next line after a warning.
\<close>

theorem groups_skips_malformed_lines:
  assumes "lines file \<noteq> []" and "delim \<noteq> []"
  shows "(\<exists>log m. groups file delim = (log, Inr m))
       \<and> (get (map strip (split_sep delim line)) si = Inl IndexError
            \<or> get (map strip (split_sep delim line)) gi = Inl IndexError \<longrightarrow>
          groups_loop delim si gi n (line # rest) G =
            after (if \<exists>cell\<in>set (map strip (split_sep delim line)). cell \<noteq> []
                   then [ColumnMissing (n + 1) (map strip (split_sep delim line))] else [])
                  (groups_loop delim si gi (n + 1) rest G))
       \<and> (\<forall>sample_cell group_cell.
            get (map strip (split_sep delim line)) si = Inr sample_cell
            \<and> get (map strip (split_sep delim line)) gi = Inr group_cell
            \<and> (clean sample_cell = [] \<or> group_cell = []) \<longrightarrow>
            groups_loop delim si gi n (line # rest) G =
              after [InformationMissing (n + 1) (map strip (split_sep delim line))]
                    (groups_loop delim si gi (n + 1) rest G))"
proof (intro conjI impI allI)
  from assms(1) obtain first rest' where ls: "lines file = first # rest'"
    by (cases "lines file") auto
  obtain ilog r where i: "index file [CHR 0x09] [''sample'', ''group''] = (ilog, r)"
    by (cases "index file [CHR 0x09] [''sample'', ''group'']")
  with index_nonempty [OF ls, of "[CHR 0x09]" "[''sample'', ''group'']"]
  obtain indices hdr where "r = Inr (indices, hdr)"
    by (auto split: prod.splits bool.splits)
  with i have "index file [CHR 0x09] [''sample'', ''group''] = (ilog, Inr (indices, hdr))"
    by simp
  from groups_unfold [OF this, of delim]
  obtain si' gi' where "groups file delim =
             after ilog (groups_loop delim si' gi' (if hdr then 1 else 0)
                                     (data_rows hdr (lines file)) [])"
    by blast
  with groups_loop_result [OF assms(2), of si' gi' "if hdr then 1 else 0" "data_rows hdr (lines file)" "[]"]
  show "\<exists>log m. groups file delim = (log, Inr m)"
    by (auto simp: after_def)
next
  assume "get (map strip (split_sep delim line)) si = Inl IndexError
            \<or> get (map strip (split_sep delim line)) gi = Inl IndexError"
  with assms(2) show "groups_loop delim si gi n (line # rest) G =
            after (if \<exists>cell\<in>set (map strip (split_sep delim line)). cell \<noteq> []
                   then [ColumnMissing (n + 1) (map strip (split_sep delim line))] else [])
                  (groups_loop delim si gi (n + 1) rest G)"
    by (auto simp: groups_line_def str_split_def missing_column_def filter_empty_conv Let_def
             split: sum.splits)
next
  fix sample_cell group_cell
  assume "get (map strip (split_sep delim line)) si = Inr sample_cell
            \<and> get (map strip (split_sep delim line)) gi = Inr group_cell
            \<and> (clean sample_cell = [] \<or> group_cell = [])"
  with assms(2) show "groups_loop delim si gi n (line # rest) G =
              after [InformationMissing (n + 1) (map strip (split_sep delim line))]
                    (groups_loop delim si gi (n + 1) rest G)"
    by (auto simp: groups_line_def str_split_def Let_def)
qed

theorem groups_skips_malformed_lines_witness:
  "(\<exists>log m. groups groups_tsv [CHR 0x09] = (log, Inr m))
   \<and> groups_loop [CHR 0x09] 0 1 5 [tsv_line [''Sample_C'']] [] =
       after [ColumnMissing 6 [''Sample_C'']] (groups_loop [CHR 0x09] 0 1 6 [] [])
   \<and> groups_loop [CHR 0x09] 0 1 4 [tsv_line [[]]] [] =
       after [] (groups_loop [CHR 0x09] 0 1 5 [] [])
   \<and> groups_loop [CHR 0x09] 0 1 6 [tsv_line [''Sample_D'', []]] [] =
       after [InformationMissing 7 [''Sample_D'', []]] (groups_loop [CHR 0x09] 0 1 7 [] [])"
proof -
  have a1: "lines groups_tsv \<noteq> []"
    by (simp add: groups_tsv_def)
  have a2: "[CHR 0x09] \<noteq> ([] :: string)"
    by simp
  have c: "map strip (split_sep [CHR 0x09] (tsv_line [''Sample_C''])) = [''Sample_C'']"
    and b: "map strip (split_sep [CHR 0x09] (tsv_line [[]])) = [[]]"
    and d: "map strip (split_sep [CHR 0x09] (tsv_line [''Sample_D'', []]))
              = [''Sample_D'', []]"
    by code_simp+
  note tc = groups_skips_malformed_lines
              [of groups_tsv "[CHR 0x09]" "tsv_line [''Sample_C'']" 0 1 5 "[]" "[]",
               OF a1 a2, unfolded c]
  note tb = groups_skips_malformed_lines
              [of groups_tsv "[CHR 0x09]" "tsv_line [[]]" 0 1 4 "[]" "[]",
               OF a1 a2, unfolded b]
  note td = groups_skips_malformed_lines
              [of groups_tsv "[CHR 0x09]" "tsv_line [''Sample_D'', []]" 0 1 6 "[]" "[]",
               OF a1 a2, unfolded d]
  have A: "\<exists>log m. groups groups_tsv [CHR 0x09] = (log, Inr m)"
    by (rule tc [THEN conjunct1])
  have ic: "get [''Sample_C''] 0 = Inl IndexError \<or> get [''Sample_C''] 1 = Inl IndexError"
    by (simp add: get_def)
  have ib: "get [[] :: string] 0 = Inl IndexError \<or> get [[] :: string] 1 = Inl IndexError"
    by (simp add: get_def)
  have idd: "get [''Sample_D'', []] 0 = Inr ''Sample_D''
           \<and> get [''Sample_D'', []] 1 = Inr []
           \<and> (clean ''Sample_D'' = [] \<or> ([] :: string) = [])"
    by (simp add: get_def)
  from mp [OF tc [THEN conjunct2, THEN conjunct1] ic]
  have C: "groups_loop [CHR 0x09] 0 1 5 [tsv_line [''Sample_C'']] [] =
       after [ColumnMissing 6 [''Sample_C'']] (groups_loop [CHR 0x09] 0 1 6 [] [])"
    by simp
  from mp [OF tb [THEN conjunct2, THEN conjunct1] ib]
  have B: "groups_loop [CHR 0x09] 0 1 4 [tsv_line [[]]] [] =
       after [] (groups_loop [CHR 0x09] 0 1 5 [] [])"
    by simp
  from td [THEN conjunct2, THEN conjunct2, rule_format, OF idd]
  have D: "groups_loop [CHR 0x09] 0 1 6 [tsv_line [''Sample_D'', []]] [] =
       after [InformationMissing 7 [''Sample_D'', []]] (groups_loop [CHR 0x09] 0 1 7 [] [])"
    by simp
  from A C B D show ?thesis by blast
qed

subsection \<open>The keys of the index map\<close>

text \<open>
  Claim C8. The claim says that the keys of the dictionary are the required names in
  lower case on both paths. The loop of the header path stores \<open>col.lower()\<close>; the loop
  of the positional path stores \<open>required[i]\<close> as it is. On a file without header and
  with the required names \<open>Sample\<close> and \<open>Group\<close> the keys are \<open>Sample\<close> and \<open>Group\<close>.
\<close>

theorem index_fallback_keys_not_lowercased:
  "index \<lparr>path = ''groups.tsv'', lines = [''S1'' @ [CHR 0x09] @ ''G1'' @ [CHR 0x0A]]\<rparr>
         [CHR 0x09] [''Sample'', ''Group'']
   = ([MissingColumnNames ''groups.tsv'', MakingAssumptions],
      Inr ([(''Sample'', 0), (''Group'', 1)], False))"
  by code_simp

text \<open>
  On the header path the keys are the required names in lower case, each with the first
  position of the name among the cells of the normalized first line.
\<close>

theorem index_header_found_keys:
  assumes "lines file = first # rest" and "delim \<noteq> []"
    and "\<forall>r\<in>set required. lower r \<in> set (header_cells (split_sep delim (strip first)))"
  shows "\<exists>indices.
           index file delim required = ([], Inr (indices, True))
           \<and> dom (map_of indices) = lower ` set required
           \<and> (\<forall>r\<in>set required.
                 map_of indices (lower r)
                   = list_index (header_cells (split_sep delim (strip first))) (lower r))
           \<and> (\<forall>k v. map_of indices k = Some v \<longrightarrow>
                 0 \<le> v \<and> nat v < length (header_cells (split_sep delim (strip first)))
                 \<and> header_cells (split_sep delim (strip first)) ! nat v = k)"
proof -
  let ?h = "header_cells (split_sep delim (strip first))"
  obtain ind b where fr: "find_required ?h required [] = (ind, b)"
    by (cases "find_required ?h required []")
  with assms(3) find_required_found [of ?h required "[]"] have b: "b" by simp
  with fr index_nonempty [OF assms(1,2), of required]
  have i: "index file delim required = ([], Inr (ind, True))" by simp
  from find_required_map_of [of ?h required "[]"] fr b
  have m: "map_of ind = (\<lambda>k. if k \<in> lower ` set required then list_index ?h k else None)"
    by (auto simp: fun_eq_iff)
  have d: "dom (map_of ind) = lower ` set required"
  proof
    show "dom (map_of ind) \<subseteq> lower ` set required"
      unfolding m by (auto split: if_splits)
    show "lower ` set required \<subseteq> dom (map_of ind)"
    proof
      fix k assume k: "k \<in> lower ` set required"
      with assms(3) have "k \<in> set ?h" by auto
      then obtain v where "list_index ?h k = Some v"
        using list_index_None [of ?h k] by (cases "list_index ?h k") auto
      with k show "k \<in> dom (map_of ind)" unfolding m by auto
    qed
  qed
  have r: "\<forall>r\<in>set required. map_of ind (lower r) = list_index ?h (lower r)"
    unfolding m by simp
  have v: "\<forall>k v. map_of ind k = Some v \<longrightarrow> 0 \<le> v \<and> nat v < length ?h \<and> ?h ! nat v = k"
    unfolding m using list_index_Some [of ?h] by (auto split: if_splits)
  from i d r v show ?thesis by blast
qed

theorem index_header_found_keys_witness:
  "\<exists>indices.
     index groups_tsv [CHR 0x09] [''Sample'', ''Group''] = ([], Inr (indices, True))
     \<and> dom (map_of indices) = {''sample'', ''group''}
     \<and> map_of indices ''sample'' = Some 0 \<and> map_of indices ''group'' = Some 1"
proof -
  have l: "lines groups_tsv = tsv_line [''Sample'', ''Group''] # tl (lines groups_tsv)"
    by (simp add: groups_tsv_def)
  have d: "[CHR 0x09] \<noteq> ([] :: string)" by simp
  have h: "header_cells (split_sep [CHR 0x09] (strip (tsv_line [''Sample'', ''Group''])))
             = [''sample'', ''group'']"
    by code_simp
  have lo: "lower ''Sample'' = ''sample''" "lower ''Group'' = ''group''"
    by code_simp+
  have a: "\<forall>r\<in>set [''Sample'', ''Group''].
             lower r \<in> set (header_cells (split_sep [CHR 0x09]
                                             (strip (tsv_line [''Sample'', ''Group'']))))"
    unfolding h by (simp add: lo)
  from index_header_found_keys [OF l d a, unfolded h] obtain indices where
    i: "index groups_tsv [CHR 0x09] [''Sample'', ''Group''] = ([], Inr (indices, True))"
    and k: "dom (map_of indices) = lower ` set [''Sample'', ''Group'']"
    and v: "\<forall>r\<in>set [''Sample'', ''Group''].
              map_of indices (lower r) = list_index [''sample'', ''group''] (lower r)"
    by blast
  from k have k': "dom (map_of indices) = {''sample'', ''group''}"
    by (simp add: lo)
  from v have "map_of indices ''sample'' = Some 0" "map_of indices ''group'' = Some 1"
    by (simp_all add: lo)
  with i k' show ?thesis by blast
qed

text \<open>
  On the positional path the keys are the required names when these are in lower case
  already, each with a position below the number of names.
\<close>

theorem index_fallback_keys_lowercase:
  assumes "lines file = first # rest" and "delim \<noteq> []"
    and "\<not> (\<forall>r\<in>set required. lower r \<in> set (header_cells (split_sep delim (strip first))))"
    and "\<forall>r\<in>set required. lower r = r"
  shows "\<exists>indices.
           index file delim required =
             ([MissingColumnNames (path file), MakingAssumptions], Inr (indices, False))
           \<and> dom (map_of indices) = set required
           \<and> (\<forall>k v. map_of indices k = Some v \<longrightarrow> 0 \<le> v \<and> v < int (length required))"
proof -
  let ?h = "header_cells (split_sep delim (strip first))"
  obtain ind b where fr: "find_required ?h required [] = (ind, b)"
    by (cases "find_required ?h required []")
  with assms(3) find_required_found [of ?h required "[]"] have b: "\<not> b" by simp
  with fr index_nonempty [OF assms(1,2), of required]
  have i: "index file delim required =
             ([MissingColumnNames (path file), MakingAssumptions],
              Inr (positional required 0 ind, False))" by simp
  from assms(4) have low: "lower ` set required = set required"
    by force
  from find_required_dom [of ?h required "[]"] fr low
  have sub: "dom (map_of ind) \<subseteq> set required" by simp
  then have d: "dom (map_of (positional required 0 ind)) = set required"
    by (auto simp: positional_dom)
  have v: "\<forall>k v. map_of (positional required 0 ind) k = Some v \<longrightarrow>
             0 \<le> v \<and> v < int (length required)"
  proof (intro allI impI)
    fix k v assume kv: "map_of (positional required 0 ind) k = Some v"
    then have "k \<in> set required" using d by auto
    from positional_range [OF this kv] show "0 \<le> v \<and> v < int (length required)" by simp
  qed
  from i d v show ?thesis by blast
qed

theorem index_fallback_keys_lowercase_witness:
  "\<exists>indices.
     index headerless_tsv [CHR 0x09] [''sample'', ''group''] =
       ([MissingColumnNames ''headerless.tsv'', MakingAssumptions], Inr (indices, False))
     \<and> dom (map_of indices) = {''sample'', ''group''}"
proof -
  have l: "lines headerless_tsv = tsv_line [''S1'', ''G1''] # [tsv_line [''S2'', ''G2'']]"
    and p: "path headerless_tsv = ''headerless.tsv''"
    by (simp_all add: headerless_tsv_def)
  have d: "[CHR 0x09] \<noteq> ([] :: string)" by simp
  have m: "\<not> (\<forall>r\<in>set [''sample'', ''group''].
                lower r \<in> set (header_cells (split_sep [CHR 0x09]
                                                (strip (tsv_line [''S1'', ''G1''])))))"
    by code_simp
  have lo: "\<forall>r\<in>set [''sample'', ''group'']. lower r = r"
    by code_simp
  from index_fallback_keys_lowercase [OF l d m lo, unfolded p] obtain indices where
    "index headerless_tsv [CHR 0x09] [''sample'', ''group''] =
       ([MissingColumnNames ''headerless.tsv'', MakingAssumptions], Inr (indices, False))"
    and "dom (map_of indices) = set [''sample'', ''group'']"
    by blast
  then show ?thesis by auto
qed

subsection \<open>Determinism\<close>



subsection \<open>The path only enters the messages\<close>

text \<open>
  Two files with the same lines under different paths make \<open>groups\<close> and \<open>contrasts\<close>
  end the same way, with the same exception or the same value; only the messages name the
  path.
\<close>

theorem readers_path_independent:
  assumes "lines file1 = lines file2"
  shows "snd (groups file1 delim) = snd (groups file2 delim)
       \<and> snd (contrasts file1 known_groups delim) = snd (contrasts file2 known_groups delim)"
proof
  show "snd (groups file1 delim) = snd (groups file2 delim)"
    by (rule snd_groups_lines [OF assms])
next
  show "snd (contrasts file1 known_groups delim) = snd (contrasts file2 known_groups delim)"
    unfolding snd_contrasts assms ..
qed

theorem readers_path_independent_witness:
  "snd (groups groups_tsv [CHR 0x09])
     = snd (groups \<lparr>path = ''copy.tsv'', lines = lines groups_tsv\<rparr> [CHR 0x09])
   \<and> snd (contrasts undefined_tsv known_example [CHR 0x09])
     = snd (contrasts \<lparr>path = ''copy.tsv'', lines = lines undefined_tsv\<rparr>
                      known_example [CHR 0x09])"
proof -
  have g: "lines groups_tsv = lines \<lparr>path = ''copy.tsv'', lines = lines groups_tsv\<rparr>"
    and u: "lines undefined_tsv = lines \<lparr>path = ''copy.tsv'', lines = lines undefined_tsv\<rparr>"
    by simp_all
  from readers_path_independent [OF g, THEN conjunct1, of "[CHR 0x09]"]
       readers_path_independent [OF u, THEN conjunct2, of known_example "[CHR 0x09]"]
  show ?thesis by blast
qed

subsection \<open>The header is cut at tabs\<close>

text \<open>
  Claim C10. Whatever delimiter \<open>groups\<close> is called with, it does what \<open>index\<close> does
  with the tab as delimiter and the names \<open>sample\<close> and \<open>group\<close>: it ends as that call
  ends, or it writes the messages of that call and reads the data rows with the columns
  and the header flag of that call. So the header is looked for in the first line cut at
  tabs: when both names are cells of it, the rows after the first line are read with the
  columns found there; when one is missing, the warning is written and all lines are read
  with the columns 0 and 1. The data rows are cut at the delimiter of the call.
\<close>

theorem groups_header_split_on_tab:
  "(case index file [CHR 0x09] [''sample'', ''group''] of
      (ilog, Inl e) \<Rightarrow> groups file delim = (ilog, Inl e)
    | (ilog, Inr (indices, hdr)) \<Rightarrow>
        (\<exists>si gi. map_of indices ''sample'' = Some si \<and> map_of indices ''group'' = Some gi
           \<and> groups file delim =
               after ilog (groups_loop delim si gi (if hdr then 1 else 0)
                                       (data_rows hdr (lines file)) [])))
   \<and> (\<forall>first rest. lines file = first # rest \<longrightarrow>
        (\<forall>si gi.
            list_index (header_cells (split_sep [CHR 0x09] (strip first))) ''sample'' = Some si
            \<and> list_index (header_cells (split_sep [CHR 0x09] (strip first))) ''group'' = Some gi \<longrightarrow>
            groups file delim = groups_loop delim si gi 1 rest [])
        \<and> (''sample'' \<notin> set (header_cells (split_sep [CHR 0x09] (strip first)))
              \<or> ''group'' \<notin> set (header_cells (split_sep [CHR 0x09] (strip first))) \<longrightarrow>
            groups file delim =
              after [MissingColumnNames (path file), MakingAssumptions]
                    (groups_loop delim 0 1 0 (first # rest) [])))"
proof (intro conjI allI impI)
  show "case index file [CHR 0x09] [''sample'', ''group''] of
      (ilog, Inl e) \<Rightarrow> groups file delim = (ilog, Inl e)
    | (ilog, Inr (indices, hdr)) \<Rightarrow>
        (\<exists>si gi. map_of indices ''sample'' = Some si \<and> map_of indices ''group'' = Some gi
           \<and> groups file delim =
               after ilog (groups_loop delim si gi (if hdr then 1 else 0)
                                       (data_rows hdr (lines file)) []))"
  proof (cases "index file [CHR 0x09] [''sample'', ''group'']")
    case (Pair ilog r)
    show ?thesis
    proof (cases r)
      case (Inl e)
      with Pair show ?thesis by (simp add: groups_def)
    next
      case (Inr p)
      obtain indices hdr where p: "p = (indices, hdr)" by (cases p)
      with Pair Inr
      have "index file [CHR 0x09] [''sample'', ''group''] = (ilog, Inr (indices, hdr))"
        by simp
      from groups_unfold [OF this, of delim] Pair Inr p show ?thesis
        by simp
    qed
  qed
next
  fix first rest si gi
  assume l: "lines file = first # rest"
    and "list_index (header_cells (split_sep [CHR 0x09] (strip first))) ''sample'' = Some si
         \<and> list_index (header_cells (split_sep [CHR 0x09] (strip first))) ''group'' = Some gi"
  then show "groups file delim = groups_loop delim si gi 1 rest []"
    using groups_by_header [OF l, of delim] by simp
next
  fix first rest
  assume l: "lines file = first # rest"
    and "''sample'' \<notin> set (header_cells (split_sep [CHR 0x09] (strip first)))
         \<or> ''group'' \<notin> set (header_cells (split_sep [CHR 0x09] (strip first)))"
  then show "groups file delim =
              after [MissingColumnNames (path file), MakingAssumptions]
                    (groups_loop delim 0 1 0 (first # rest) [])"
    using groups_by_header [OF l, of delim]
    by (auto simp: list_index_None [symmetric] split: option.splits)
qed

theorem groups_header_split_on_tab_witness:
  "groups groups_csv '','' =
     after [MissingColumnNames ''groups.csv'', MakingAssumptions]
           (groups_loop '','' 0 1 0 (lines groups_csv) [])
   \<and> groups groups_csv '','' =
       ([MissingColumnNames ''groups.csv'', MakingAssumptions],
        Inr [(''group'', [''sample'']), (''G1'', [''S1''])])
   \<and> groups groups_tsv '','' = groups_loop '','' 0 1 1 (tl (lines groups_tsv)) []"
proof -
  have l: "lines groups_csv = (''sample,group'' @ [CHR 0x0A]) # [''S1,G1'' @ [CHR 0x0A]]"
    and p: "path groups_csv = ''groups.csv''"
    by (simp_all add: groups_csv_def)
  have m: "''sample'' \<notin> set (header_cells (split_sep [CHR 0x09]
                                               (strip (''sample,group'' @ [CHR 0x0A]))))
           \<or> ''group'' \<notin> set (header_cells (split_sep [CHR 0x09]
                                               (strip (''sample,group'' @ [CHR 0x0A]))))"
    by code_simp
  note t = groups_header_split_on_tab [of groups_csv "'',''", THEN conjunct2, rule_format, OF l]
  from mp [OF t [THEN conjunct2] m]
  have A: "groups groups_csv '','' =
     after [MissingColumnNames ''groups.csv'', MakingAssumptions]
           (groups_loop '','' 0 1 0 (lines groups_csv) [])"
    unfolding p l .
  have B: "groups groups_csv '','' =
       ([MissingColumnNames ''groups.csv'', MakingAssumptions],
        Inr [(''group'', [''sample'']), (''G1'', [''S1''])])"
    by code_simp
  have l2: "lines groups_tsv = tsv_line [''Sample'', ''Group''] # tl (lines groups_tsv)"
    by (simp add: groups_tsv_def)
  have h: "list_index (header_cells (split_sep [CHR 0x09]
                                        (strip (tsv_line [''Sample'', ''Group''])))) ''sample''
             = Some 0
         \<and> list_index (header_cells (split_sep [CHR 0x09]
                                        (strip (tsv_line [''Sample'', ''Group''])))) ''group''
             = Some 1"
    by code_simp
  note t2 = groups_header_split_on_tab [of groups_tsv "'',''", THEN conjunct2, rule_format, OF l2]
  from t2 [THEN conjunct1, rule_format, OF h]
  have C: "groups groups_tsv '','' = groups_loop '','' 0 1 1 (tl (lines groups_tsv)) []" .
  from A B C show ?thesis by blast
qed

end
